theory Spec2Isabelle
  imports Main "HOL-Library.Multiset"
begin

section \<open>Python values, errors and the random source\<close>

text \<open>
  The engine of \<^verbatim>\<open>8gen.py\<close> works on a grid (a list of rows, each cell either
  \<^verbatim>\<open>None\<close> or a one-character string), on words (strings) and on Python integers.
  Characters are kept abstract (type variable \<open>'c\<close>) wherever the code only compares
  them; where the code compares against \<^verbatim>\<open>'A'\<close> and \<^verbatim>\<open>'Z'\<close> they are Unicode code
  points (\<open>nat\<close>).  Exceptions are values of type \<open>error\<close>.
\<close>

datatype error = IndexError | ValueError

type_synonym 'c grid = "'c option list list"

definition and_then :: "error + 'a \<Rightarrow> ('a \<Rightarrow> error + 'b) \<Rightarrow> error + 'b" where
  "and_then m f = (case m of Inl e \<Rightarrow> Inl e | Inr v \<Rightarrow> f v)"

text \<open>
  Python list indexing: a negative index counts from the end, anything outside
  \<open>[-len, len)\<close> raises \<^verbatim>\<open>IndexError\<close>.
\<close>

definition norm_index :: "nat \<Rightarrow> int \<Rightarrow> error + nat" where
  "norm_index len i =
     (if 0 \<le> i \<and> i < int len then Inr (nat i)
      else if - int len \<le> i \<and> i < 0 then Inr (nat (int len + i))
      else Inl IndexError)"

definition getitem :: "'a list \<Rightarrow> int \<Rightarrow> error + 'a" where
  "getitem xs i = and_then (norm_index (length xs) i) (\<lambda>j. Inr (xs ! j))"

definition setitem :: "'a list \<Rightarrow> int \<Rightarrow> 'a \<Rightarrow> error + 'a list" where
  "setitem xs i v = and_then (norm_index (length xs) i) (\<lambda>j. Inr (xs[j := v]))"

text \<open>
  The module \<^verbatim>\<open>random\<close> is the only ambient state of the engine.  It is modelled as
  an explicit source: an infinite tape of raw draws; \<open>randbelow n\<close> consumes one draw
  and reduces it modulo \<open>n\<close>, so every outcome of the real generator is the outcome of
  some tape.  \<open>choice\<close>, \<open>randint\<close> and \<open>shuffle\<close> follow the standard library:
  \<^verbatim>\<open>choice\<close> of an empty sequence raises \<^verbatim>\<open>IndexError\<close>, \<^verbatim>\<open>randint(a, b)\<close> with
  \<open>b < a\<close> raises \<^verbatim>\<open>ValueError\<close>, \<^verbatim>\<open>shuffle\<close> is the Fisher-Yates loop from the last
  index down to 1.
\<close>

type_synonym rng = "nat \<Rightarrow> nat"

definition randbelow :: "nat \<Rightarrow> rng \<Rightarrow> nat \<times> rng" where
  "randbelow n r = (r 0 mod n, \<lambda>k. r (Suc k))"

definition choice :: "'a list \<Rightarrow> rng \<Rightarrow> error + ('a \<times> rng)" where
  "choice xs r =
     (if xs = [] then Inl IndexError
      else (case randbelow (length xs) r of (j, r') \<Rightarrow> Inr (xs ! j, r')))"

definition randint :: "int \<Rightarrow> int \<Rightarrow> rng \<Rightarrow> error + (int \<times> rng)" where
  "randint a b r =
     (if b + 1 - a \<le> 0 then Inl ValueError
      else (case randbelow (nat (b + 1 - a)) r of (j, r') \<Rightarrow> Inr (a + int j, r')))"

fun shuffle_down :: "nat \<Rightarrow> 'a list \<Rightarrow> rng \<Rightarrow> 'a list \<times> rng" where
  "shuffle_down 0 xs r = (xs, r)"
| "shuffle_down (Suc k) xs r =
     (case randbelow (Suc (Suc k)) r of
        (j, r') \<Rightarrow> shuffle_down k (xs[Suc k := xs ! j, j := xs ! Suc k]) r')"

definition shuffle :: "'a list \<Rightarrow> rng \<Rightarrow> 'a list \<times> rng" where
  "shuffle xs r = shuffle_down (length xs - 1) xs r"

section \<open>Direction catalog\<close>

definition DIRECTIONS :: "(int \<times> int \<times> string) list" where
  "DIRECTIONS =
     [(1, 0, ''E''), (0, 1, ''S''), (1, 1, ''SE''), (-1, 1, ''SW''),
      (-1, 0, ''W''), (0, -1, ''N''), (-1, -1, ''NW''), (1, -1, ''NE'')]"

definition pick_allowed :: "bool \<Rightarrow> bool \<Rightarrow> (int \<times> int \<times> string) list" where
  "pick_allowed diagonals backwards =
     (let forward = {''E'', ''S'', ''SE'', ''SW''};
          allowed = filter (\<lambda>d. diagonals \<or> fst d = 0 \<or> fst (snd d) = 0) DIRECTIONS
      in if backwards then allowed
         else filter (\<lambda>d. snd (snd d) \<in> forward) allowed)"

section \<open>Collision checker and word writer\<close>

definition make_empty :: "int \<Rightarrow> 'c grid" where
  "make_empty n = replicate (nat n) (replicate (nat n) None)"

text \<open>
  \<open>can_place_from\<close> is the loop of \<^verbatim>\<open>can_place\<close> over \<^verbatim>\<open>enumerate(word)\<close>, entered
  at index \<open>i\<close> with the rest of the word still to check.
\<close>

fun can_place_from ::
  "'c grid \<Rightarrow> int \<Rightarrow> int \<Rightarrow> int \<Rightarrow> int \<Rightarrow> nat \<Rightarrow> 'c list \<Rightarrow> error + bool" where
  "can_place_from grid x y dx dy i [] = Inr True"
| "can_place_from grid x y dx dy i (ch # rest) =
     (let n = int (length grid); cx = x + dx * int i; cy = y + dy * int i
      in if cx < 0 \<or> cy < 0 \<or> cx \<ge> n \<or> cy \<ge> n then Inr False
         else and_then (getitem grid cy) (\<lambda>row.
              and_then (getitem row cx) (\<lambda>cell.
                if cell \<noteq> None \<and> cell \<noteq> Some ch then Inr False
                else can_place_from grid x y dx dy (Suc i) rest)))"

definition can_place ::
  "'c grid \<Rightarrow> int \<Rightarrow> int \<Rightarrow> int \<Rightarrow> int \<Rightarrow> 'c list \<Rightarrow> error + bool" where
  "can_place grid x y dx dy word = can_place_from grid x y dx dy 0 word"

fun place_word_from ::
  "'c grid \<Rightarrow> int \<Rightarrow> int \<Rightarrow> int \<Rightarrow> int \<Rightarrow> nat \<Rightarrow> 'c list \<Rightarrow> error + 'c grid" where
  "place_word_from grid x y dx dy i [] = Inr grid"
| "place_word_from grid x y dx dy i (ch # rest) =
     and_then (norm_index (length grid) (y + dy * int i)) (\<lambda>r.
     and_then (setitem (grid ! r) (x + dx * int i) (Some ch)) (\<lambda>row'.
       place_word_from (grid[r := row']) x y dx dy (Suc i) rest))"

definition place_word ::
  "'c grid \<Rightarrow> int \<Rightarrow> int \<Rightarrow> int \<Rightarrow> int \<Rightarrow> 'c list \<Rightarrow> error + 'c grid" where
  "place_word grid x y dx dy word = place_word_from grid x y dx dy 0 word"

section \<open>Cell fillers\<close>

text \<open>
  The two nested \<^verbatim>\<open>range(n)\<close> loops of \<^verbatim>\<open>fill_random\<close> visit the index pairs
  \<open>(y, x)\<close> in the order of \<open>List.product [0..<n] [0..<n]\<close>; \<open>fill_random_cells\<close> is
  the loop body run over the pairs still to visit.
\<close>

fun fill_random_cells ::
  "'c grid \<Rightarrow> 'c list \<Rightarrow> (nat \<times> nat) list \<Rightarrow> rng \<Rightarrow> error + ('c grid \<times> rng)" where
  "fill_random_cells grid alphabet [] r = Inr (grid, r)"
| "fill_random_cells grid alphabet ((y, x) # rest) r =
     and_then (getitem grid (int y)) (\<lambda>row.
     and_then (getitem row (int x)) (\<lambda>cell.
       if cell = None then
         and_then (choice alphabet r) (\<lambda>(ch, r').
         and_then (setitem row (int x) (Some ch)) (\<lambda>row'.
           fill_random_cells (grid[y := row']) alphabet rest r'))
       else fill_random_cells grid alphabet rest r))"

definition fill_random :: "'c grid \<Rightarrow> 'c list \<Rightarrow> rng \<Rightarrow> error + ('c grid \<times> rng)" where
  "fill_random grid alphabet r =
     (let n = length grid
      in fill_random_cells grid alphabet (List.product [0..<n] [0..<n]) r)"

text \<open>
  \<^verbatim>\<open>remove_diacritics\<close> and \<^verbatim>\<open>str.upper\<close> rest on the Unicode tables of the Python
  runtime (NFD normalisation, the category \<^verbatim>\<open>Mn\<close>, the upper-case mapping); these
  tables are parameters of the model.
\<close>

record unicode =
  normalize_NFD :: "nat list \<Rightarrow> nat list"
  is_Mn :: "nat \<Rightarrow> bool"
  upper :: "nat list \<Rightarrow> nat list"

definition remove_diacritics :: "unicode \<Rightarrow> nat list \<Rightarrow> nat list" where
  "remove_diacritics u s = filter (\<lambda>c. \<not> is_Mn u c) (normalize_NFD u s)"

text \<open>\<^verbatim>\<open>'A'\<close> is code point 65 and \<^verbatim>\<open>'Z'\<close> is code point 90.\<close>

definition letters_random_of :: "unicode \<Rightarrow> nat list \<Rightarrow> nat list" where
  "letters_random_of u alphabet =
     sort (remdups (filter (\<lambda>ch. 65 \<le> ch \<and> ch \<le> 90)
                           (upper u (remove_diacritics u alphabet))))"

definition empties_of :: "'c grid \<Rightarrow> (nat \<times> nat) list" where
  "empties_of grid =
     concat (map (\<lambda>(y, row).
               map (\<lambda>(x, val). (y, x)) (filter (\<lambda>(x, val). val = None) (enumerate 0 row)))
             (enumerate 0 grid))"

fun fill_tajenka_cells ::
  "'c grid \<Rightarrow> 'c list \<Rightarrow> 'c list \<Rightarrow> nat \<Rightarrow> (nat \<times> nat) list \<Rightarrow> rng
   \<Rightarrow> error + ('c grid \<times> rng)" where
  "fill_tajenka_cells grid letters tajenka i [] r = Inr (grid, r)"
| "fill_tajenka_cells grid letters tajenka i ((y, x) # rest) r =
     and_then (if i < length tajenka then Inr (tajenka ! i, r) else choice letters r) (\<lambda>(ch, r').
     and_then (norm_index (length grid) (int y)) (\<lambda>j.
     and_then (setitem (grid ! j) (int x) (Some ch)) (\<lambda>row'.
       fill_tajenka_cells (grid[j := row']) letters tajenka (Suc i) rest r')))"

definition fill_with_tajenka ::
  "unicode \<Rightarrow> nat grid \<Rightarrow> nat list \<Rightarrow> nat list \<Rightarrow> rng \<Rightarrow> error + (nat grid \<times> rng)" where
  "fill_with_tajenka u grid alphabet tajenka r =
     (let letters_random = letters_random_of u alphabet;
          empties = empties_of grid
      in fill_tajenka_cells grid letters_random tajenka 0 empties r)"

section \<open>Placement attempter and greedy scheduler\<close>

definition max_origin :: "int \<Rightarrow> int \<Rightarrow> nat \<Rightarrow> int" where
  "max_origin n d len = (if d \<le> 0 then n - 1 else n - int len)"

definition min_origin :: "int \<Rightarrow> nat \<Rightarrow> int" where
  "min_origin d len = (if d \<ge> 0 then 0 else int len - 1)"

text \<open>
  \<^verbatim>\<open>new_cells\<close> counts, over \<^verbatim>\<open>range(len(w))\<close>, the cells of the candidate that are
  still \<^verbatim>\<open>None\<close>; \<^verbatim>\<open>empties\<close> counts the \<^verbatim>\<open>None\<close> cells of the whole grid.
\<close>

fun new_cells_of ::
  "'c grid \<Rightarrow> int \<Rightarrow> int \<Rightarrow> int \<Rightarrow> int \<Rightarrow> nat list \<Rightarrow> error + int" where
  "new_cells_of grid x y dx dy [] = Inr 0"
| "new_cells_of grid x y dx dy (i # rest) =
     and_then (getitem grid (y + dy * int i)) (\<lambda>row.
     and_then (getitem row (x + dx * int i)) (\<lambda>cell.
     and_then (new_cells_of grid x y dx dy rest) (\<lambda>k.
       Inr ((if cell = None then 1 else 0) + k))))"

definition count_empties :: "'c grid \<Rightarrow> int" where
  "count_empties grid = int (length (filter (\<lambda>cell. cell = None) (concat grid)))"

text \<open>
  One pass through the body of the \<^verbatim>\<open>for _ in range(1000)\<close> loop.  The result
  \<open>None\<close> stands for falling through to the next trial (\<^verbatim>\<open>can_place\<close> false, or the
  \<^verbatim>\<open>continue\<close> of the reservation check); \<open>Some (grid', (x, y, dx, dy))\<close> stands for
  \<^verbatim>\<open>place_word\<close> followed by \<^verbatim>\<open>break\<close>, with the accepted origin and direction.
\<close>

type_synonym placement = "int \<times> int \<times> int \<times> int"

definition trial ::
  "'c grid \<Rightarrow> (int \<times> int \<times> string) list \<Rightarrow> int \<Rightarrow> int \<Rightarrow> 'c list \<Rightarrow> rng
   \<Rightarrow> error + (('c grid \<times> placement) option \<times> rng)" where
  "trial grid allowed n tajenka_len w r =
     and_then (choice allowed r) (\<lambda>((dx, dy, name), r1).
       let max_x = max_origin n dx (length w); min_x = min_origin dx (length w);
           max_y = max_origin n dy (length w); min_y = min_origin dy (length w)
       in and_then (randint min_x max_x r1) (\<lambda>(x, r2).
          and_then (randint min_y max_y r2) (\<lambda>(y, r3).
          and_then (can_place grid x y dx dy w) (\<lambda>ok.
            if ok then
              and_then (new_cells_of grid x y dx dy [0..<length w]) (\<lambda>new_cells.
                let empties = count_empties grid
                in if tajenka_len \<noteq> 0 \<and> empties - new_cells < tajenka_len
                   then Inr (None, r3)
                   else and_then (place_word grid x y dx dy w) (\<lambda>grid'.
                          Inr (Some (grid', (x, y, dx, dy)), r3)))
            else Inr (None, r3)))))"

fun attempts ::
  "nat \<Rightarrow> 'c grid \<Rightarrow> (int \<times> int \<times> string) list \<Rightarrow> int \<Rightarrow> int \<Rightarrow> 'c list \<Rightarrow> rng
   \<Rightarrow> error + (('c grid \<times> placement) option \<times> rng)" where
  "attempts 0 grid allowed n tajenka_len w r = Inr (None, r)"
| "attempts (Suc t) grid allowed n tajenka_len w r =
     and_then (trial grid allowed n tajenka_len w r) (\<lambda>(res, r').
       case res of
         None \<Rightarrow> attempts t grid allowed n tajenka_len w r'
       | Some p \<Rightarrow> Inr (Some p, r'))"

text \<open>
  The loop over \<^verbatim>\<open>words_pool\<close>.  Its state is the grid and the list \<^verbatim>\<open>placed\<close>;
  the third component is a history that the code does not keep: for every accepted
  word, the origin and direction at which it was written.
\<close>

type_synonym 'c sched = "'c grid \<times> 'c list list \<times> ('c list \<times> placement) list"

fun place_words ::
  "(int \<times> int \<times> string) list \<Rightarrow> int \<Rightarrow> int \<Rightarrow> 'c list list \<Rightarrow> 'c sched \<Rightarrow> rng
   \<Rightarrow> error + ('c sched \<times> rng)" where
  "place_words allowed n tajenka_len [] st r = Inr (st, r)"
| "place_words allowed n tajenka_len (w # ws) (grid, placed, hist) r =
     (if int (length w) > n then place_words allowed n tajenka_len ws (grid, placed, hist) r
      else and_then (attempts 1000 grid allowed n tajenka_len w r) (\<lambda>(res, r').
             case res of
               None \<Rightarrow> place_words allowed n tajenka_len ws (grid, placed, hist) r'
             | Some (grid', pos) \<Rightarrow>
                 place_words allowed n tajenka_len ws
                   (grid', placed @ [w], hist @ [(w, pos)]) r'))"

definition words_pool_of :: "'c list list \<Rightarrow> rng \<Rightarrow> 'c list list \<times> rng" where
  "words_pool_of words r = shuffle (sort_key (\<lambda>w. - int (length w)) words) r"

definition greedy_run ::
  "'c list list \<Rightarrow> int \<Rightarrow> bool \<Rightarrow> bool \<Rightarrow> int \<Rightarrow> rng \<Rightarrow> error + ('c sched \<times> rng)" where
  "greedy_run words n diagonals backwards tajenka_len r =
     (let grid = make_empty n; allowed = pick_allowed diagonals backwards
      in case words_pool_of words r of
           (words_pool, r') \<Rightarrow>
             place_words allowed n tajenka_len words_pool (grid, [], []) r')"

definition greedy_place ::
  "'c list list \<Rightarrow> int \<Rightarrow> bool \<Rightarrow> bool \<Rightarrow> int \<Rightarrow> rng
   \<Rightarrow> error + (('c grid \<times> 'c list list) \<times> rng)" where
  "greedy_place words n diagonals backwards tajenka_len r =
     and_then (greedy_run words n diagonals backwards tajenka_len r)
       (\<lambda>((grid, placed, hist), r'). Inr ((grid, placed), r'))"

text \<open>
  The body of the page loop of \<^verbatim>\<open>save_pdf\<close> up to the call of the renderer:
  schedule the words, then fill the grid.  \<open>letters\<close> is the alphabet looked up in
  \<^verbatim>\<open>ALPHABETS\<close>; an absent or empty \<^verbatim>\<open>tajenka\<close> gives \<^verbatim>\<open>taj_len = 0\<close>.
\<close>

definition taj_len_of :: "nat list option \<Rightarrow> int" where
  "taj_len_of tajenka = (case tajenka of None \<Rightarrow> 0 | Some t \<Rightarrow> int (length t))"

definition save_pdf_page ::
  "unicode \<Rightarrow> nat list list \<Rightarrow> int \<Rightarrow> bool \<Rightarrow> bool \<Rightarrow> nat list \<Rightarrow> nat list option \<Rightarrow> rng
   \<Rightarrow> error + ((nat grid \<times> nat list list) \<times> rng)" where
  "save_pdf_page u words n diagonals backwards letters tajenka r =
     (let taj_len = taj_len_of tajenka
      in and_then (greedy_place words n diagonals backwards taj_len r) (\<lambda>((grid, placed), r1).
           and_then (case tajenka of
                       Some t \<Rightarrow>
                         if taj_len \<noteq> 0 then fill_with_tajenka u grid letters t r1
                         else fill_random grid (letters_random_of u letters) r1
                     | None \<Rightarrow> fill_random grid (letters_random_of u letters) r1) (\<lambda>(grid', r2).
             Inr ((grid', placed), r2))))"

section \<open>Vocabulary of the properties\<close>

text \<open>
  A grid of side \<open>N\<close> has \<open>N\<close> rows of \<open>N\<close> cells each; \<open>inside N cx cy\<close> says
  that a coordinate pair lies in \<open>[0, N)\<close> on both axes; \<open>cell_at grid cx cy\<close> is
  \<^verbatim>\<open>grid[cy][cx]\<close> for such a pair.
\<close>

definition square :: "nat \<Rightarrow> 'c grid \<Rightarrow> bool" where
  "square N grid \<longleftrightarrow> length grid = N \<and> list_all (\<lambda>row. length row = N) grid"

definition inside :: "nat \<Rightarrow> int \<Rightarrow> int \<Rightarrow> bool" where
  "inside N cx cy \<longleftrightarrow> 0 \<le> cx \<and> cx < int N \<and> 0 \<le> cy \<and> cy < int N"

definition cell_at :: "'c grid \<Rightarrow> int \<Rightarrow> int \<Rightarrow> 'c option" where
  "cell_at grid cx cy = grid ! nat cy ! nat cx"

text \<open>
  \<open>preserved g g'\<close>: the two grids have the same shape and every non-empty cell of
  \<open>g\<close> holds the same character in \<open>g'\<close>.  \<open>read_along\<close> reads \<open>len\<close> cells from an
  origin along a direction; \<open>reads grid (w, (x, y, dx, dy))\<close> says that all cells of
  the placement are inside the grid and that reading them gives the word back.
  \<open>nones\<close> counts the empty cells of a row.
\<close>

definition preserved :: "'c grid \<Rightarrow> 'c grid \<Rightarrow> bool" where
  "preserved g g' \<longleftrightarrow> list_all2 (list_all2 (\<lambda>a b. a = None \<or> b = a)) g g'"

definition read_along :: "'c grid \<Rightarrow> int \<Rightarrow> int \<Rightarrow> int \<Rightarrow> int \<Rightarrow> nat \<Rightarrow> 'c option list" where
  "read_along grid x y dx dy len =
     map (\<lambda>i. cell_at grid (x + dx * int i) (y + dy * int i)) [0..<len]"

definition reads :: "'c grid \<Rightarrow> 'c list \<times> placement \<Rightarrow> bool" where
  "reads grid e =
     (case e of (w, (x, y, dx, dy)) \<Rightarrow>
        list_all (\<lambda>i. inside (length grid) (x + dx * int i) (y + dy * int i)) [0..<length w] \<and>
        read_along grid x y dx dy (length w) = map Some w)"

definition nones :: "'c option list \<Rightarrow> nat" where
  "nones row = length (filter (\<lambda>cell. cell = None) row)"

text \<open>
  \<open>put grid cx cy v\<close> is the grid after the assignment \<^verbatim>\<open>grid[cy][cx] = v\<close> at a
  coordinate inside the grid; \<open>path_nones\<close> counts the empty cells among the cells of
  a candidate placement at the given word indices.
\<close>

definition put :: "'c grid \<Rightarrow> int \<Rightarrow> int \<Rightarrow> 'c option \<Rightarrow> 'c grid" where
  "put grid cx cy v = grid[nat cy := (grid ! nat cy)[nat cx := v]]"

definition path_nones :: "'c grid \<Rightarrow> int \<Rightarrow> int \<Rightarrow> int \<Rightarrow> int \<Rightarrow> nat list \<Rightarrow> nat" where
  "path_nones grid x y dx dy idxs =
     length (filter (\<lambda>i. cell_at grid (x + dx * int i) (y + dy * int i) = None) idxs)"

section \<open>Basic facts about the model\<close>

lemma and_then_Inl [simp]: "and_then (Inl e) f = Inl e"
  by (simp add: and_then_def)

lemma and_then_Inr [simp]: "and_then (Inr v) f = f v"
  by (simp add: and_then_def)

lemma and_then_eq_Inr: "and_then m f = Inr z \<longleftrightarrow> (\<exists>v. m = Inr v \<and> f v = Inr z)"
  by (cases m) simp_all

lemma norm_index_inside: "0 \<le> i \<Longrightarrow> i < int len \<Longrightarrow> norm_index len i = Inr (nat i)"
  by (simp add: norm_index_def)

lemma getitem_inside: "0 \<le> i \<Longrightarrow> i < int (length xs) \<Longrightarrow> getitem xs i = Inr (xs ! nat i)"
  by (simp add: getitem_def norm_index_inside)

lemma setitem_inside:
  "0 \<le> i \<Longrightarrow> i < int (length xs) \<Longrightarrow> setitem xs i v = Inr (xs[nat i := v])"
  by (simp add: setitem_def norm_index_inside)

lemma square_row: "square N grid \<Longrightarrow> j < N \<Longrightarrow> length (grid ! j) = N"
  by (simp add: square_def list_all_length)

lemma all_less_Suc_shift: "(\<forall>j<Suc m. P j) \<longleftrightarrow> P 0 \<and> (\<forall>j<m. P (Suc j))"
  by (metis less_Suc_eq_0_disj)

lemma can_place_from_iff:
  assumes "square N grid"
  shows "can_place_from grid x y dx dy i w =
           Inr (\<forall>j<length w.
                  inside N (x + dx * int (i + j)) (y + dy * int (i + j)) \<and>
                  (cell_at grid (x + dx * int (i + j)) (y + dy * int (i + j)) = None \<or>
                   cell_at grid (x + dx * int (i + j)) (y + dy * int (i + j)) = Some (w ! j)))"
proof (induction w arbitrary: i)
  case Nil
  show ?case by simp
next
  case (Cons ch rest)
  have len: "length grid = N" using assms by (simp add: square_def)
  show ?case
  proof (cases "inside N (x + dx * int i) (y + dy * int i)")
    case False
    then show ?thesis
      by (auto simp: inside_def len all_less_Suc_shift Let_def)
  next
    case True
    then have row: "length (grid ! nat (y + dy * int i)) = N"
      using assms square_row [of N grid "nat (y + dy * int i)"] by (auto simp: inside_def)
    from True have g1: "getitem grid (y + dy * int i) = Inr (grid ! nat (y + dy * int i))"
      by (simp add: inside_def getitem_inside len)
    from True row have g2: "getitem (grid ! nat (y + dy * int i)) (x + dx * int i)
        = Inr (cell_at grid (x + dx * int i) (y + dy * int i))"
      by (simp add: inside_def getitem_inside cell_at_def)
    from True have nb: "\<not> (x + dx * int i < 0 \<or> y + dy * int i < 0 \<or>
        int (length grid) \<le> x + dx * int i \<or> int (length grid) \<le> y + dy * int i)"
      by (auto simp: inside_def len)
    show ?thesis
      using True Cons.IH [of "Suc i"] nb
      by (simp add: all_less_Suc_shift Let_def g1 g2 add_ac)
  qed
qed

section \<open>Collision checker\<close>

text \<open>
  C1.  On a grid of side \<open>N\<close>, for every word, origin and direction, \<open>can_place\<close>
  returns normally, and it returns true exactly when, for every index \<open>i\<close> of the
  word, the cell \<open>(x + dx * i, y + dy * i)\<close> lies inside \<open>[0, N)\<close> on both axes and is
  either empty or already holds \<open>word ! i\<close>; so it returns false whenever some
  coordinate is out of bounds or some cell holds a different character.
\<close>

theorem can_place_iff:
  assumes "square N grid"
  shows "can_place grid x y dx dy word =
           Inr (\<forall>i<length word.
                  inside N (x + dx * int i) (y + dy * int i) \<and>
                  (cell_at grid (x + dx * int i) (y + dy * int i) = None \<or>
                   cell_at grid (x + dx * int i) (y + dy * int i) = Some (word ! i)))"
  using can_place_from_iff [OF assms, of x y dx dy 0 word] by (simp add: can_place_def)

theorem can_place_iff_witness:
  "square 2 [[None, Some CHR ''A''], [None, None]] \<and>
   can_place [[None, Some CHR ''A''], [None, None]] 0 0 1 0 ''BA'' = Inr True \<and>
   can_place [[None, Some CHR ''A''], [None, None]] 0 0 1 0 ''BB'' = Inr False \<and>
   can_place [[None, Some CHR ''A''], [None, None]] 1 0 1 0 ''AB'' = Inr False"
proof -
  have h: "square 2 [[None, Some CHR ''A''], [None, None]]"
    by (simp add: square_def)
  show ?thesis
    using h can_place_iff [OF h, of 0 0 1 0 "''BA''"] can_place_iff [OF h, of 0 0 1 0 "''BB''"]
      can_place_iff [OF h, of 1 0 1 0 "''AB''"]
    by (simp add: all_less_Suc_shift inside_def cell_at_def)
qed

section \<open>Direction catalog\<close>

text \<open>
  C4.  For both flags, \<open>pick_allowed\<close> returns exactly the directions of the catalog
  that pass both filters.  Without diagonals only E, S, W, N survive (and only E, S
  when backwards is off as well); without backwards only the forward directions
  E, S, SE, SW survive after the diagonal filter; the result is never empty and
  always contains E = (1, 0) and S = (0, 1).
\<close>

theorem pick_allowed_catalog:
  "pick_allowed diagonals backwards =
     filter (\<lambda>d. (diagonals \<or> fst d = 0 \<or> fst (snd d) = 0) \<and>
                 (backwards \<or> snd (snd d) \<in> {''E'', ''S'', ''SE'', ''SW''})) DIRECTIONS \<and>
   pick_allowed False True = [(1, 0, ''E''), (0, 1, ''S''), (-1, 0, ''W''), (0, -1, ''N'')] \<and>
   pick_allowed False False = [(1, 0, ''E''), (0, 1, ''S'')] \<and>
   pick_allowed True False = [(1, 0, ''E''), (0, 1, ''S''), (1, 1, ''SE''), (-1, 1, ''SW'')] \<and>
   pick_allowed True True = DIRECTIONS \<and>
   pick_allowed diagonals backwards \<noteq> [] \<and>
   (1, 0, ''E'') \<in> set (pick_allowed diagonals backwards) \<and>
   (0, 1, ''S'') \<in> set (pick_allowed diagonals backwards)"
  by (cases diagonals; cases backwards) (simp_all add: pick_allowed_def DIRECTIONS_def)

section \<open>Origin ranges of the placement attempter\<close>

lemma direction_components:
  "(dx, dy, name) \<in> set DIRECTIONS \<Longrightarrow>
     (dx = -1 \<or> dx = 0 \<or> dx = 1) \<and> (dy = -1 \<or> dy = 0 \<or> dy = 1) \<and> (dx \<noteq> 0 \<or> dy \<noteq> 0)"
  by (auto simp: DIRECTIONS_def)

lemma origin_range_nonempty:
  assumes "1 \<le> n" "int len \<le> n" "d = -1 \<or> d = 0 \<or> d = 1"
  shows "min_origin d len \<le> max_origin n d len"
  using assms by (auto simp: min_origin_def max_origin_def)

lemma origin_range_fits:
  assumes "d = -1 \<or> d = 0 \<or> d = 1"
    and "min_origin d len \<le> x" "x \<le> max_origin n d len" "i < len"
  shows "0 \<le> x + d * int i \<and> x + d * int i < n"
  using assms by (auto simp: min_origin_def max_origin_def)

lemma randbelow_less: "0 < m \<Longrightarrow> fst (randbelow m r) < m"
  by (simp add: randbelow_def)

lemma randint_range:
  assumes "a \<le> b"
  shows "\<exists>v r'. randint a b r = Inr (v, r') \<and> a \<le> v \<and> v \<le> b \<and> r' = (\<lambda>k. r (Suc k))"
proof -
  have pos: "0 < nat (b + 1 - a)" using assms by simp
  have "r 0 mod nat (b + 1 - a) < nat (b + 1 - a)"
    using pos by (rule mod_less_divisor)
  then have "a + int (r 0 mod nat (b + 1 - a)) \<le> b" by linarith
  then show ?thesis using assms by (simp add: randint_def randbelow_def)
qed

text \<open>
  C9.  For a grid size \<open>n \<ge> 1\<close>, a word with \<open>1 \<le> len \<le> n\<close> and a direction of
  the catalog, the origin ranges computed by \<open>greedy_place\<close> are non-empty on both
  axes, so both calls of \<open>randint\<close> return an origin; every origin inside the ranges
  keeps all cells of the word inside \<open>[0, n)\<close> on both axes, hence on a grid of side
  \<open>n\<close> the result of \<open>can_place\<close> is decided by the cell contents alone (its
  out-of-bounds branch is not taken).
\<close>

theorem origin_ranges_safe:
  assumes n: "1 \<le> n" and w: "1 \<le> length w" "int (length w) \<le> n"
    and d: "(dx, dy, name) \<in> set DIRECTIONS"
  shows "min_origin dx (length w) \<le> max_origin n dx (length w) \<and>
         min_origin dy (length w) \<le> max_origin n dy (length w) \<and>
         (\<exists>x r'. randint (min_origin dx (length w)) (max_origin n dx (length w)) r = Inr (x, r')) \<and>
         (\<exists>y r'. randint (min_origin dy (length w)) (max_origin n dy (length w)) r = Inr (y, r')) \<and>
         (\<forall>x y. min_origin dx (length w) \<le> x \<and> x \<le> max_origin n dx (length w) \<and>
                min_origin dy (length w) \<le> y \<and> y \<le> max_origin n dy (length w) \<longrightarrow>
            (\<forall>i<length w. inside (nat n) (x + dx * int i) (y + dy * int i)) \<and>
            (\<forall>grid::'c grid. square (nat n) grid \<longrightarrow>
               can_place grid x y dx dy w =
                 Inr (\<forall>i<length w. cell_at grid (x + dx * int i) (y + dy * int i) = None \<or>
                                    cell_at grid (x + dx * int i) (y + dy * int i) = Some (w ! i))))"
proof -
  from d have cx: "dx = -1 \<or> dx = 0 \<or> dx = 1" and cy: "dy = -1 \<or> dy = 0 \<or> dy = 1"
    using direction_components by blast+
  have rx: "min_origin dx (length w) \<le> max_origin n dx (length w)"
    using n w(2) cx by (rule origin_range_nonempty)
  have ry: "min_origin dy (length w) \<le> max_origin n dy (length w)"
    using n w(2) cy by (rule origin_range_nonempty)
  have fits: "inside (nat n) (x + dx * int i) (y + dy * int i)"
    if "min_origin dx (length w) \<le> x" "x \<le> max_origin n dx (length w)"
       "min_origin dy (length w) \<le> y" "y \<le> max_origin n dy (length w)" "i < length w"
    for x y i
    using origin_range_fits [OF cx that(1,2,5)] origin_range_fits [OF cy that(3,4,5)] n
    by (simp add: inside_def)
  have cp: "can_place grid x y dx dy w =
                 Inr (\<forall>i<length w. cell_at grid (x + dx * int i) (y + dy * int i) = None \<or>
                                    cell_at grid (x + dx * int i) (y + dy * int i) = Some (w ! i))"
    if "min_origin dx (length w) \<le> x" "x \<le> max_origin n dx (length w)"
       "min_origin dy (length w) \<le> y" "y \<le> max_origin n dy (length w)"
       "square (nat n) grid"
    for x y and grid :: "'c grid"
    using fits [OF that(1-4)] can_place_from_iff [OF that(5), of x y dx dy 0 w]
    by (simp add: can_place_def)
  from randint_range [OF rx] randint_range [OF ry] rx ry fits cp
  show ?thesis by blast
qed

theorem origin_ranges_safe_witness:
  "min_origin (-1) (length ''CAT'') \<le> max_origin 5 (-1) (length ''CAT'') \<and>
   min_origin 1 (length ''CAT'') \<le> max_origin 5 1 (length ''CAT'') \<and>
   min_origin (-1) (length ''CAT'') = 2 \<and> max_origin 5 (-1) (length ''CAT'') = 4 \<and>
   min_origin 1 (length ''CAT'') = 0 \<and> max_origin 5 1 (length ''CAT'') = 2 \<and>
   inside 5 (2 + (-1) * int 2) (2 + 1 * int 2)"
proof -
  have n: "(1::int) \<le> 5" by simp
  have w: "1 \<le> length ''CAT''" "int (length ''CAT'') \<le> 5" by simp_all
  have d: "(-1, 1, ''SW'') \<in> set DIRECTIONS" by (simp add: DIRECTIONS_def)
  have r: "min_origin (-1) (length ''CAT'') \<le> 2 \<and> 2 \<le> max_origin 5 (-1) (length ''CAT'') \<and>
           min_origin 1 (length ''CAT'') \<le> 2 \<and> 2 \<le> max_origin 5 1 (length ''CAT'')"
    by (simp add: min_origin_def max_origin_def)
  have i: "2 < length ''CAT''" by simp
  from origin_ranges_safe [OF n w d, of "\<lambda>k. 0"]
  have a: "min_origin (-1) (length ''CAT'') \<le> max_origin 5 (-1) (length ''CAT'')"
    and b: "min_origin 1 (length ''CAT'') \<le> max_origin 5 1 (length ''CAT'')"
    and c: "\<forall>x y. min_origin (-1) (length ''CAT'') \<le> x \<and> x \<le> max_origin 5 (-1) (length ''CAT'') \<and>
                min_origin 1 (length ''CAT'') \<le> y \<and> y \<le> max_origin 5 1 (length ''CAT'') \<longrightarrow>
            (\<forall>i<length ''CAT''. inside (nat 5) (x + (-1) * int i) (y + 1 * int i))"
    by blast+
  from c r i have "inside (nat 5) (2 + (-1) * int 2) (2 + 1 * int 2)" by blast
  with a b show ?thesis by (simp add: min_origin_def max_origin_def)
qed

section \<open>Writing into a grid\<close>

lemma nth_nth_update:
  "(g[r := (g ! r)[c := v]]) ! y ! x =
     (if y = r \<and> x = c \<and> r < length g \<and> c < length (g ! r) then v else g ! y ! x)"
  by (cases "r < length g"; cases "y = r"; cases "c < length (g ! r)"; cases "x = c")
     (simp_all add: list_update_beyond not_less)

lemma shape_update: "map length (g[r := (g ! r)[c := v]]) = map length g"
  by (cases "r < length g") (simp_all add: map_update list_update_same_conv list_update_beyond not_less)

lemma shape_length: "map length g' = map length g \<Longrightarrow> length g' = length g"
  by (rule map_eq_imp_length_eq)

lemma shape_row: "map length g' = map length g \<Longrightarrow> y < length g \<Longrightarrow> length (g' ! y) = length (g ! y)"
proof -
  assume e: "map length g' = map length g" and y: "y < length g"
  from e have "length g' = length g" by (rule shape_length)
  with y have "length (g' ! y) = map length g' ! y" by simp
  also have "\<dots> = length (g ! y)" using e y by simp
  finally show ?thesis .
qed

lemma square_shape: "map length g' = map length g \<Longrightarrow> square N g \<Longrightarrow> square N g'"
proof -
  assume e: "map length g' = map length g" and s: "square N g"
  from e have l: "length g' = length g" by (rule shape_length)
  have "length (g' ! y) = N" if "y < length g" for y
    using shape_row [OF e that] s that by (simp add: square_def list_all_length)
  with l s show ?thesis by (simp add: square_def list_all_length)
qed

lemma nones_split: "nones (xs @ v # ys) = nones xs + (if v = None then 1 else 0) + nones ys"
  by (simp add: nones_def)

lemma nones_update:
  assumes "c < length row"
  shows "nones (row[c := Some ch]) + (if row ! c = None then 1 else 0) = nones row"
proof -
  have "nones row = nones (take c row @ row ! c # drop (Suc c) row)"
    using id_take_nth_drop [OF assms] by (rule arg_cong)
  moreover have "nones (row[c := Some ch]) = nones (take c row @ Some ch # drop (Suc c) row)"
    using assms by (simp add: upd_conv_take_nth_drop)
  ultimately show ?thesis by (simp add: nones_split)
qed

lemma count_empties_sum: "count_empties g = int (sum_list (map nones g))"
  by (simp add: count_empties_def nones_def [abs_def] filter_concat length_concat comp_def)

lemma count_empties_update:
  assumes "r < length g" "c < length (g ! r)"
  shows "count_empties (g[r := (g ! r)[c := Some ch]]) =
           count_empties g - (if g ! r ! c = None then 1 else 0)"
proof -
  have "sum_list (map nones g) = sum_list (map nones (take r g @ g ! r # drop (Suc r) g))"
    using id_take_nth_drop [OF assms(1)] by (rule arg_cong)
  moreover have "g[r := (g ! r)[c := Some ch]] = take r g @ (g ! r)[c := Some ch] # drop (Suc r) g"
    using assms(1) by (rule upd_conv_take_nth_drop)
  ultimately have "sum_list (map nones (g[r := (g ! r)[c := Some ch]])) + (if g ! r ! c = None then 1 else 0)
        = sum_list (map nones g)"
    using nones_update [OF assms(2), of ch] by simp
  then show ?thesis by (auto simp: count_empties_sum split: if_splits)
qed

lemma shape_put: "map length (put g cx cy v) = map length g"
  by (simp add: put_def shape_update)

lemma square_put: "square N g \<Longrightarrow> square N (put g cx cy v)"
  using shape_put by (rule square_shape)

lemma cell_at_put:
  assumes "square N g" "inside N cx cy" "inside N cx' cy'"
  shows "cell_at (put g cx cy v) cx' cy' = (if cx' = cx \<and> cy' = cy then v else cell_at g cx' cy')"
proof -
  have r: "nat cy < length g" using assms(1,2) by (auto simp: square_def inside_def)
  have c: "nat cx < length (g ! nat cy)"
    using assms(1,2) square_row [of N g "nat cy"] by (auto simp: inside_def)
  have e: "(nat cy' = nat cy \<and> nat cx' = nat cx) = (cx' = cx \<and> cy' = cy)"
    using assms(2,3) by (auto simp: inside_def)
  show ?thesis
    unfolding cell_at_def put_def nth_nth_update using r c e by simp
qed

lemma count_empties_put:
  assumes "square N g" "inside N cx cy"
  shows "count_empties (put g cx cy (Some ch)) =
           count_empties g - (if cell_at g cx cy = None then 1 else 0)"
proof -
  have r: "nat cy < length g" using assms by (auto simp: square_def inside_def)
  have c: "nat cx < length (g ! nat cy)"
    using assms square_row [of N g "nat cy"] by (auto simp: inside_def)
  show ?thesis unfolding put_def cell_at_def by (rule count_empties_update [OF r c])
qed

lemma place_word_from_step:
  assumes "square N grid" "inside N (x + dx * int i) (y + dy * int i)"
  shows "place_word_from grid x y dx dy i (ch # rest) =
           place_word_from (put grid (x + dx * int i) (y + dy * int i) (Some ch)) x y dx dy (Suc i) rest"
proof -
  have len: "length grid = N" using assms(1) by (simp add: square_def)
  have n1: "norm_index (length grid) (y + dy * int i) = Inr (nat (y + dy * int i))"
    using assms(2) by (simp add: norm_index_inside inside_def len)
  have "length (grid ! nat (y + dy * int i)) = N"
    using assms square_row [of N grid "nat (y + dy * int i)"] by (auto simp: inside_def)
  then have s1: "setitem (grid ! nat (y + dy * int i)) (x + dx * int i) (Some ch)
      = Inr ((grid ! nat (y + dy * int i))[nat (x + dx * int i) := Some ch])"
    using assms(2) by (simp add: setitem_inside inside_def)
  show ?thesis by (simp add: n1 s1 put_def)
qed

lemma path_ConsD:
  assumes "\<forall>j<length (ch # rest). P (i + j)"
  shows "P i" and "\<forall>j<length rest. P (Suc i + j)"
  using assms by (simp_all add: all_less_Suc_shift)

lemma place_word_from_returns:
  assumes "square N grid" "\<forall>j<length w. inside N (x + dx * int (i + j)) (y + dy * int (i + j))"
  shows "\<exists>g'. place_word_from grid x y dx dy i w = Inr g' \<and> map length g' = map length grid"
  using assms
proof (induction w arbitrary: i grid)
  case Nil
  show ?case by simp
next
  case (Cons ch rest)
  note hl = path_ConsD [where P = "\<lambda>k. inside N (x + dx * int k) (y + dy * int k)", OF Cons.prems(2)]
  have here: "inside N (x + dx * int i) (y + dy * int i)" by (rule hl(1))
  have later: "\<forall>j<length rest. inside N (x + dx * int (Suc i + j)) (y + dy * int (Suc i + j))"
    by (rule hl(2))
  let ?g1 = "put grid (x + dx * int i) (y + dy * int i) (Some ch)"
  have "square N ?g1" using Cons.prems(1) by (rule square_put)
  from Cons.IH [OF this later] obtain g' where
    "place_word_from ?g1 x y dx dy (Suc i) rest = Inr g'" "map length g' = map length ?g1"
    by blast
  then show ?case
    unfolding place_word_from_step [OF Cons.prems(1) here] by (simp add: shape_put)
qed

lemma place_word_from_frame:
  assumes "place_word_from grid x y dx dy i w = Inr g'"
    and "square N grid" "\<forall>j<length w. inside N (x + dx * int (i + j)) (y + dy * int (i + j))"
    and "inside N cx cy"
    and "\<forall>j<length w. cx \<noteq> x + dx * int (i + j) \<or> cy \<noteq> y + dy * int (i + j)"
  shows "cell_at g' cx cy = cell_at grid cx cy"
  using assms
proof (induction w arbitrary: i grid)
  case Nil
  then show ?case by simp
next
  case (Cons ch rest)
  note hl = path_ConsD [where P = "\<lambda>k. inside N (x + dx * int k) (y + dy * int k)", OF Cons.prems(3)]
  have here: "inside N (x + dx * int i) (y + dy * int i)" by (rule hl(1))
  have later: "\<forall>j<length rest. inside N (x + dx * int (Suc i + j)) (y + dy * int (Suc i + j))"
    by (rule hl(2))
  note ho = path_ConsD [where P = "\<lambda>k. cx \<noteq> x + dx * int k \<or> cy \<noteq> y + dy * int k", OF Cons.prems(5)]
  have off: "cx \<noteq> x + dx * int i \<or> cy \<noteq> y + dy * int i" by (rule ho(1))
  have off': "\<forall>j<length rest. cx \<noteq> x + dx * int (Suc i + j) \<or> cy \<noteq> y + dy * int (Suc i + j)"
    by (rule ho(2))
  let ?g1 = "put grid (x + dx * int i) (y + dy * int i) (Some ch)"
  have sq1: "square N ?g1" using Cons.prems(2) by (rule square_put)
  have run: "place_word_from ?g1 x y dx dy (Suc i) rest = Inr g'"
    using Cons.prems(1) unfolding place_word_from_step [OF Cons.prems(2) here] .
  have "cell_at g' cx cy = cell_at ?g1 cx cy"
    by (rule Cons.IH [OF run sq1 later Cons.prems(4) off'])
  also have "\<dots> = cell_at grid cx cy"
    using off by (auto simp: cell_at_put [OF Cons.prems(2) here Cons.prems(4)])
  finally show ?case .
qed

lemma line_injective:
  fixes dx dy :: int
  assumes "dx \<noteq> 0 \<or> dy \<noteq> 0" "a \<noteq> b"
  shows "x + dx * int a \<noteq> x + dx * int b \<or> y + dy * int a \<noteq> y + dy * int b"
  using assms by auto

lemma place_word_from_written:
  assumes "place_word_from grid x y dx dy i w = Inr g'"
    and "square N grid" "\<forall>j<length w. inside N (x + dx * int (i + j)) (y + dy * int (i + j))"
    and "dx \<noteq> 0 \<or> dy \<noteq> 0" "j < length w"
  shows "cell_at g' (x + dx * int (i + j)) (y + dy * int (i + j)) = Some (w ! j)"
  using assms
proof (induction w arbitrary: i grid j)
  case Nil
  then show ?case by simp
next
  case (Cons ch rest)
  note hl = path_ConsD [where P = "\<lambda>k. inside N (x + dx * int k) (y + dy * int k)", OF Cons.prems(3)]
  have here: "inside N (x + dx * int i) (y + dy * int i)" by (rule hl(1))
  have later: "\<forall>j<length rest. inside N (x + dx * int (Suc i + j)) (y + dy * int (Suc i + j))"
    by (rule hl(2))
  let ?g1 = "put grid (x + dx * int i) (y + dy * int i) (Some ch)"
  have sq1: "square N ?g1" using Cons.prems(2) by (rule square_put)
  have run: "place_word_from ?g1 x y dx dy (Suc i) rest = Inr g'"
    using Cons.prems(1) unfolding place_word_from_step [OF Cons.prems(2) here] .
  show ?case
  proof (cases j)
    case 0
    have "\<forall>k<length rest. x + dx * int i \<noteq> x + dx * int (Suc i + k) \<or>
                           y + dy * int i \<noteq> y + dy * int (Suc i + k)"
      using line_injective [OF Cons.prems(4), of i "Suc i + k" for k] by simp
    from place_word_from_frame [OF run sq1 later here this]
    have "cell_at g' (x + dx * int i) (y + dy * int i) = cell_at ?g1 (x + dx * int i) (y + dy * int i)" .
    also have "\<dots> = Some ch" by (simp add: cell_at_put [OF Cons.prems(2) here here])
    finally show ?thesis using 0 by simp
  next
    case (Suc k)
    with Cons.prems(5) have k: "k < length rest" by simp
    from Cons.IH [OF run sq1 later Cons.prems(4) k] show ?thesis using Suc by simp
  qed
qed

lemma path_nones_Cons:
  "path_nones grid x y dx dy (i # rest) =
     (if cell_at grid (x + dx * int i) (y + dy * int i) = None then 1 else 0)
     + path_nones grid x y dx dy rest"
  by (simp add: path_nones_def)

lemma path_nones_put_le:
  assumes "square N grid" "inside N cx cy"
    and "\<forall>k\<in>set idxs. inside N (x + dx * int k) (y + dy * int k)"
  shows "path_nones (put grid cx cy (Some ch)) x y dx dy idxs \<le> path_nones grid x y dx dy idxs"
  using assms(3)
proof (induction idxs)
  case Nil
  show ?case by (simp add: path_nones_def)
next
  case (Cons k rest)
  then have ins: "inside N (x + dx * int k) (y + dy * int k)" by simp
  show ?case
    using Cons by (auto simp: path_nones_Cons cell_at_put [OF assms(1,2) ins])
qed

lemma new_cells_of_inside:
  assumes "square N grid" "\<forall>k\<in>set idxs. inside N (x + dx * int k) (y + dy * int k)"
  shows "new_cells_of grid x y dx dy idxs = Inr (int (path_nones grid x y dx dy idxs))"
  using assms(2)
proof (induction idxs)
  case Nil
  show ?case by (simp add: path_nones_def)
next
  case (Cons k rest)
  then have ins: "inside N (x + dx * int k) (y + dy * int k)" by simp
  have len: "length grid = N" using assms(1) by (simp add: square_def)
  have row: "length (grid ! nat (y + dy * int k)) = N"
    using assms(1) ins square_row [of N grid "nat (y + dy * int k)"] by (auto simp: inside_def)
  have g1: "getitem grid (y + dy * int k) = Inr (grid ! nat (y + dy * int k))"
    using ins by (simp add: inside_def getitem_inside len)
  have g2: "getitem (grid ! nat (y + dy * int k)) (x + dx * int k)
        = Inr (cell_at grid (x + dx * int k) (y + dy * int k))"
    using ins row by (simp add: inside_def getitem_inside cell_at_def)
  from Cons have "new_cells_of grid x y dx dy rest = Inr (int (path_nones grid x y dx dy rest))"
    by simp
  then show ?case by (simp add: g1 g2 path_nones_Cons)
qed

lemma place_word_from_count:
  assumes "place_word_from grid x y dx dy i w = Inr g'"
    and "square N grid" "\<forall>j<length w. inside N (x + dx * int (i + j)) (y + dy * int (i + j))"
  shows "count_empties grid - int (path_nones grid x y dx dy [i..<i + length w]) \<le> count_empties g'"
  using assms
proof (induction w arbitrary: i grid)
  case Nil
  then show ?case by simp
next
  case (Cons ch rest)
  note hl = path_ConsD [where P = "\<lambda>k. inside N (x + dx * int k) (y + dy * int k)", OF Cons.prems(3)]
  have here: "inside N (x + dx * int i) (y + dy * int i)" by (rule hl(1))
  have later: "\<forall>j<length rest. inside N (x + dx * int (Suc i + j)) (y + dy * int (Suc i + j))"
    by (rule hl(2))
  let ?g1 = "put grid (x + dx * int i) (y + dy * int i) (Some ch)"
  have sq1: "square N ?g1" using Cons.prems(2) by (rule square_put)
  have run: "place_word_from ?g1 x y dx dy (Suc i) rest = Inr g'"
    using Cons.prems(1) unfolding place_word_from_step [OF Cons.prems(2) here] .
  have idx: "[i..<i + length (ch # rest)] = i # [Suc i..<Suc i + length rest]"
    by (simp add: upt_conv_Cons del: upt_Suc)
  have "\<forall>k\<in>set [Suc i..<Suc i + length rest]. inside N (x + dx * int k) (y + dy * int k)"
  proof
    fix k assume "k \<in> set [Suc i..<Suc i + length rest]"
    then have "k - Suc i < length rest" "k = Suc i + (k - Suc i)" by auto
    with later show "inside N (x + dx * int k) (y + dy * int k)" by metis
  qed
  from path_nones_put_le [OF Cons.prems(2) here this]
  have le: "path_nones ?g1 x y dx dy [Suc i..<Suc i + length rest]
             \<le> path_nones grid x y dx dy [Suc i..<Suc i + length rest]" .
  from Cons.IH [OF run sq1 later]
  have "count_empties ?g1 - int (path_nones ?g1 x y dx dy [Suc i..<Suc i + length rest])
          \<le> count_empties g'" .
  with le show ?case
    unfolding idx path_nones_Cons count_empties_put [OF Cons.prems(2) here]
    by (simp split: if_splits)
qed

lemma preserved_iff:
  "preserved g g' \<longleftrightarrow>
     length g = length g' \<and>
     (\<forall>y<length g. length (g ! y) = length (g' ! y) \<and>
        (\<forall>x<length (g ! y). g ! y ! x = None \<or> g' ! y ! x = g ! y ! x))"
  by (simp add: preserved_def list_all2_conv_all_nth)

lemma preserved_refl: "preserved g g"
  by (simp add: preserved_iff)

lemma preserved_trans: "preserved g g' \<Longrightarrow> preserved g' g'' \<Longrightarrow> preserved g g''"
  unfolding preserved_iff by (metis option.distinct(1))

lemma preserved_shape: "preserved g g' \<Longrightarrow> map length g' = map length g"
  by (simp add: preserved_iff list_eq_iff_nth_eq)

lemma preserved_square: "preserved g g' \<Longrightarrow> square N g \<Longrightarrow> square N g'"
  using preserved_shape square_shape by blast

lemma preserved_cell:
  assumes "preserved g g'" "square N g" "inside N cx cy" "cell_at g cx cy = Some c"
  shows "cell_at g' cx cy = Some c"
proof -
  have r: "nat cy < length g" using assms(2,3) by (auto simp: square_def inside_def)
  have c: "nat cx < length (g ! nat cy)"
    using assms(2,3) square_row [of N g "nat cy"] by (auto simp: inside_def)
  from assms(1) r c have "g ! nat cy ! nat cx = None \<or> g' ! nat cy ! nat cx = g ! nat cy ! nat cx"
    unfolding preserved_iff by blast
  with assms(4) show ?thesis by (simp add: cell_at_def)
qed

lemma preservedI:
  assumes "square N g" "map length g' = map length g"
    and "\<And>cx cy. inside N cx cy \<Longrightarrow> cell_at g cx cy = None \<or> cell_at g' cx cy = cell_at g cx cy"
  shows "preserved g g'"
  unfolding preserved_iff
proof (intro conjI allI impI)
  show "length g = length g'" using assms(2) shape_length by metis
next
  fix y assume y: "y < length g"
  show "length (g ! y) = length (g' ! y)" using shape_row [OF assms(2) y] by simp
next
  fix y x assume y: "y < length g" and x: "x < length (g ! y)"
  have "length g = N" "length (g ! y) = N"
    using assms(1) y square_row [of N g y] by (simp_all add: square_def)
  with x y have "inside N (int x) (int y)" by (simp add: inside_def)
  from assms(3) [OF this] show "g ! y ! x = None \<or> g' ! y ! x = g ! y ! x"
    by (simp add: cell_at_def)
qed

lemma read_along_iff:
  "read_along grid x y dx dy (length w) = map Some w \<longleftrightarrow>
     (\<forall>i<length w. cell_at grid (x + dx * int i) (y + dy * int i) = Some (w ! i))"
proof
  assume eq: "read_along grid x y dx dy (length w) = map Some w"
  show "\<forall>i<length w. cell_at grid (x + dx * int i) (y + dy * int i) = Some (w ! i)"
  proof (intro allI impI)
    fix i assume i: "i < length w"
    from eq have "read_along grid x y dx dy (length w) ! i = map Some w ! i" by simp
    with i show "cell_at grid (x + dx * int i) (y + dy * int i) = Some (w ! i)"
      by (simp add: read_along_def)
  qed
next
  assume "\<forall>i<length w. cell_at grid (x + dx * int i) (y + dy * int i) = Some (w ! i)"
  then show "read_along grid x y dx dy (length w) = map Some w"
    by (intro nth_equalityI) (simp_all add: read_along_def)
qed

lemma reads_iff:
  "reads grid (w, (x, y, dx, dy)) \<longleftrightarrow>
     (\<forall>i<length w. inside (length grid) (x + dx * int i) (y + dy * int i) \<and>
                    cell_at grid (x + dx * int i) (y + dy * int i) = Some (w ! i))"
proof -
  have a: "list_all (\<lambda>i. inside (length grid) (x + dx * int i) (y + dy * int i)) [0..<length w]
        \<longleftrightarrow> (\<forall>i<length w. inside (length grid) (x + dx * int i) (y + dy * int i))"
    by (auto simp: list_all_iff)
  have "reads grid (w, (x, y, dx, dy)) \<longleftrightarrow>
      list_all (\<lambda>i. inside (length grid) (x + dx * int i) (y + dy * int i)) [0..<length w] \<and>
      read_along grid x y dx dy (length w) = map Some w"
    by (simp add: reads_def)
  also have "\<dots> \<longleftrightarrow> (\<forall>i<length w. inside (length grid) (x + dx * int i) (y + dy * int i)) \<and>
      (\<forall>i<length w. cell_at grid (x + dx * int i) (y + dy * int i) = Some (w ! i))"
    unfolding a read_along_iff ..
  finally show ?thesis by blast
qed

lemma reads_preserved:
  assumes "reads g e" "preserved g g'" "square N g"
  shows "reads g' e"
proof -
  obtain w x y dx dy where e: "e = (w, (x, y, dx, dy))" by (cases e) auto
  have l: "length g = N" "length g' = N"
    using assms(2,3) by (simp_all add: square_def preserved_iff)
  show ?thesis
    using assms(1) preserved_cell [OF assms(2,3)] unfolding e reads_iff l by blast
qed

section \<open>Accepted placements and single trials\<close>

lemma can_place_True_iff:
  assumes "square N grid"
  shows "can_place grid x y dx dy w = Inr True \<longleftrightarrow>
           (\<forall>i<length w. inside N (x + dx * int i) (y + dy * int i) \<and>
               (cell_at grid (x + dx * int i) (y + dy * int i) = None \<or>
                cell_at grid (x + dx * int i) (y + dy * int i) = Some (w ! i)))"
  using can_place_from_iff [OF assms, of x y dx dy 0 w] by (simp add: can_place_def)

lemma accepted_placement:
  assumes sq: "square N grid" and cp: "can_place grid x y dx dy w = Inr True"
    and nz: "dx \<noteq> 0 \<or> dy \<noteq> 0"
  shows "\<exists>g'. place_word grid x y dx dy w = Inr g' \<and> square N g' \<and> preserved grid g' \<and>
              reads g' (w, (x, y, dx, dy)) \<and>
              count_empties grid - int (path_nones grid x y dx dy [0..<length w]) \<le> count_empties g'"
proof -
  from cp have ok: "\<forall>i<length w. inside N (x + dx * int i) (y + dy * int i) \<and>
               (cell_at grid (x + dx * int i) (y + dy * int i) = None \<or>
                cell_at grid (x + dx * int i) (y + dy * int i) = Some (w ! i))"
    by (simp add: can_place_True_iff [OF sq])
  then have ins: "\<forall>j<length w. inside N (x + dx * int (0 + j)) (y + dy * int (0 + j))"
    by simp
  from place_word_from_returns [OF sq ins] obtain g' where
    run: "place_word_from grid x y dx dy 0 w = Inr g'" and shape: "map length g' = map length grid"
    by blast
  have sq': "square N g'" using shape sq by (rule square_shape)
  have written: "cell_at g' (x + dx * int j) (y + dy * int j) = Some (w ! j)" if "j < length w" for j
    using place_word_from_written [OF run sq ins nz that] by simp
  have "preserved grid g'"
  proof (rule preservedI [OF sq shape])
    fix cx cy assume c: "inside N cx cy"
    show "cell_at grid cx cy = None \<or> cell_at g' cx cy = cell_at grid cx cy"
    proof (cases "\<exists>j<length w. cx = x + dx * int j \<and> cy = y + dy * int j")
      case True
      then obtain j where j: "j < length w" "cx = x + dx * int j" "cy = y + dy * int j" by blast
      with ok written [OF j(1)] show ?thesis by auto
    next
      case False
      then have "\<forall>j<length w. cx \<noteq> x + dx * int (0 + j) \<or> cy \<noteq> y + dy * int (0 + j)" by simp
      from place_word_from_frame [OF run sq ins c this] show ?thesis by simp
    qed
  qed
  moreover have "reads g' (w, (x, y, dx, dy))"
    using sq' ok written by (simp add: reads_iff square_def)
  moreover have "count_empties grid - int (path_nones grid x y dx dy [0..<length w]) \<le> count_empties g'"
    using place_word_from_count [OF run sq ins] by simp
  ultimately show ?thesis using run sq' by (simp add: place_word_def)
qed

lemma choice_Inr:
  "choice xs r = Inr (v, r') \<longleftrightarrow>
     xs \<noteq> [] \<and> v = xs ! (r 0 mod length xs) \<and> r' = (\<lambda>k. r (Suc k))"
  by (auto simp: choice_def randbelow_def)

lemma randint_Inr:
  "randint a b r = Inr (v, r') \<longleftrightarrow>
     a \<le> b \<and> v = a + int (r 0 mod nat (b + 1 - a)) \<and> r' = (\<lambda>k. r (Suc k))"
  by (auto simp: randint_def randbelow_def)

lemma and_then_pair_Inr:
  "and_then m (\<lambda>(a, b). f a b) = Inr z \<longleftrightarrow> (\<exists>a b. m = Inr (a, b) \<and> f a b = Inr z)"
  by (cases m) auto

lemma trial_Inr:
  assumes "trial grid allowed n tlen w r = Inr (res, r')"
  shows "r' = (\<lambda>k. r (k + 3)) \<and>
         (res = None \<or>
          (\<exists>g' x y dx dy name nc.
             res = Some (g', (x, y, dx, dy)) \<and> (dx, dy, name) \<in> set allowed \<and>
             can_place grid x y dx dy w = Inr True \<and>
             new_cells_of grid x y dx dy [0..<length w] = Inr nc \<and>
             (tlen = 0 \<or> tlen \<le> count_empties grid - nc) \<and>
             place_word grid x y dx dy w = Inr g'))"
proof -
  from assms obtain dx dy name r1 x r2 y r3 ok where
    c: "choice allowed r = Inr ((dx, dy, name), r1)"
    and x: "randint (min_origin dx (length w)) (max_origin n dx (length w)) r1 = Inr (x, r2)"
    and y: "randint (min_origin dy (length w)) (max_origin n dy (length w)) r2 = Inr (y, r3)"
    and cp: "can_place grid x y dx dy w = Inr ok"
    and rest: "(if ok then
              and_then (new_cells_of grid x y dx dy [0..<length w]) (\<lambda>new_cells.
                if tlen \<noteq> 0 \<and> count_empties grid - new_cells < tlen
                   then Inr (None, r3)
                   else and_then (place_word grid x y dx dy w) (\<lambda>grid'.
                          Inr (Some (grid', (x, y, dx, dy)), r3)))
            else Inr (None, r3)) = Inr (res, r')"
    unfolding trial_def Let_def
    by (auto simp: and_then_pair_Inr and_then_eq_Inr split: prod.splits)
  from c x y have r3: "r3 = (\<lambda>k. r (k + 3))" and mem: "(dx, dy, name) \<in> set allowed"
    by (auto simp: choice_Inr randint_Inr numeral_3_eq_3)
  show ?thesis
  proof (cases ok)
    case False
    with rest r3 show ?thesis by simp
  next
    case True
    with rest obtain nc where nc: "new_cells_of grid x y dx dy [0..<length w] = Inr nc"
      and rest': "(if tlen \<noteq> 0 \<and> count_empties grid - nc < tlen
                   then Inr (None, r3)
                   else and_then (place_word grid x y dx dy w) (\<lambda>grid'.
                          Inr (Some (grid', (x, y, dx, dy)), r3))) = Inr (res, r')"
      by (auto simp: and_then_eq_Inr)
    show ?thesis
    proof (cases "tlen \<noteq> 0 \<and> count_empties grid - nc < tlen")
      case True
      with rest' r3 show ?thesis by simp
    next
      case False
      with rest' obtain g' where "place_word grid x y dx dy w = Inr g'"
        "res = Some (g', (x, y, dx, dy))" "r' = r3"
        by (auto simp: and_then_eq_Inr)
      with False nc cp \<open>ok\<close> mem r3 show ?thesis by auto
    qed
  qed
qed

lemma attempts_Inr:
  assumes "attempts t grid allowed n tlen w r = Inr (res, r')"
  shows "(\<exists>m\<le>t. r' = (\<lambda>k. r (k + 3 * m)) \<and> (res = None \<longrightarrow> m = t)) \<and>
         (res = None \<or> (\<exists>r0 r1. trial grid allowed n tlen w r0 = Inr (res, r1)))"
  using assms
proof (induction t arbitrary: r)
  case 0
  then show ?case by simp
next
  case (Suc t)
  from Suc.prems obtain res1 r1 where
    t1: "trial grid allowed n tlen w r = Inr (res1, r1)"
    and rest: "(case res1 of None \<Rightarrow> attempts t grid allowed n tlen w r1
                            | Some p \<Rightarrow> Inr (Some p, r1)) = Inr (res, r')"
    by (auto simp: and_then_eq_Inr)
  from trial_Inr [OF t1] have r1: "r1 = (\<lambda>k. r (k + 3))" by simp
  show ?case
  proof (cases res1)
    case None
    with rest have "attempts t grid allowed n tlen w r1 = Inr (res, r')" by simp
    from Suc.IH [OF this] obtain m where
      m: "m \<le> t" "r' = (\<lambda>k. r1 (k + 3 * m))" "res = None \<longrightarrow> m = t"
      and tr: "res = None \<or> (\<exists>r0 r1. trial grid allowed n tlen w r0 = Inr (res, r1))"
      by blast
    have "r' = (\<lambda>k. r (k + 3 * Suc m))" using m(2) r1 by (simp add: add_ac)
    with m(1,3) tr show ?thesis by (intro conjI exI [of _ "Suc m"]) auto
  next
    case (Some p)
    with rest have "res = Some p" "r' = r1" by simp_all
    with t1 r1 Some show ?thesis by (intro conjI exI [of _ "Suc 0"]) auto
  qed
qed

section \<open>The scheduler loop\<close>

lemma trial_accepts:
  assumes t: "trial grid allowed n tlen w r = Inr (Some (g', pos), r')"
    and sq: "square N grid" and dirs: "set allowed \<subseteq> set DIRECTIONS"
  shows "square N g' \<and> preserved grid g' \<and> reads g' (w, pos) \<and>
         (tlen = 0 \<or> tlen \<le> count_empties g') \<and>
         (\<exists>x y dx dy. pos = (x, y, dx, dy) \<and> can_place grid x y dx dy w = Inr True \<and>
                       place_word grid x y dx dy w = Inr g')"
proof -
  from trial_Inr [OF t] obtain x y dx dy name nc where
    pos: "pos = (x, y, dx, dy)" and mem: "(dx, dy, name) \<in> set allowed"
    and cp: "can_place grid x y dx dy w = Inr True"
    and nc: "new_cells_of grid x y dx dy [0..<length w] = Inr nc"
    and res: "tlen = 0 \<or> tlen \<le> count_empties grid - nc"
    and pw: "place_word grid x y dx dy w = Inr g'"
    by auto
  from mem dirs have nz: "dx \<noteq> 0 \<or> dy \<noteq> 0" using direction_components by blast
  from accepted_placement [OF sq cp nz] pw have
    a: "square N g'" "preserved grid g'" "reads g' (w, (x, y, dx, dy))"
    and cnt: "count_empties grid - int (path_nones grid x y dx dy [0..<length w]) \<le> count_empties g'"
    by auto
  from cp have "\<forall>i\<in>set [0..<length w]. inside N (x + dx * int i) (y + dy * int i)"
    by (simp add: can_place_True_iff [OF sq])
  from new_cells_of_inside [OF sq this] nc
  have "nc = int (path_nones grid x y dx dy [0..<length w])" by simp
  with res cnt have "tlen = 0 \<or> tlen \<le> count_empties g'" by auto
  with a pos cp pw show ?thesis by simp
qed

lemma place_words_invariant:
  assumes "place_words allowed n tlen ws st r = Inr (st', r')" and "I st"
    and "\<And>grid placed hist w g' pos r0 r1.
           I (grid, placed, hist) \<Longrightarrow> w \<in> set ws \<Longrightarrow> int (length w) \<le> n \<Longrightarrow>
           trial grid allowed n tlen w r0 = Inr (Some (g', pos), r1) \<Longrightarrow>
           I (g', placed @ [w], hist @ [(w, pos)])"
  shows "I st'"
  using assms
proof (induction ws arbitrary: st r)
  case Nil
  then show ?case by simp
next
  case (Cons w ws)
  obtain grid placed hist where st: "st = (grid, placed, hist)" by (cases st) auto
  have step: "\<And>grid placed hist v g' pos r0 r1.
           I (grid, placed, hist) \<Longrightarrow> v \<in> set ws \<Longrightarrow> int (length v) \<le> n \<Longrightarrow>
           trial grid allowed n tlen v r0 = Inr (Some (g', pos), r1) \<Longrightarrow>
           I (g', placed @ [v], hist @ [(v, pos)])"
    using Cons.prems(3) by simp
  show ?case
  proof (cases "n < int (length w)")
    case True
    with Cons.prems(1) have "place_words allowed n tlen ws st r = Inr (st', r')"
      by (simp add: st)
    from Cons.IH [OF this Cons.prems(2) step] show ?thesis .
  next
    case False
    with Cons.prems(1) obtain res r1 where
      att: "attempts 1000 grid allowed n tlen w r = Inr (res, r1)"
      and rest: "(case res of
               None \<Rightarrow> place_words allowed n tlen ws (grid, placed, hist) r1
             | Some (grid', pos) \<Rightarrow>
                 place_words allowed n tlen ws (grid', placed @ [w], hist @ [(w, pos)]) r1)
            = Inr (st', r')"
      by (auto simp: st and_then_pair_Inr)
    show ?thesis
    proof (cases res)
      case None
      with rest have "place_words allowed n tlen ws st r1 = Inr (st', r')" by (simp add: st)
      from Cons.IH [OF this Cons.prems(2) step] show ?thesis .
    next
      case (Some p)
      obtain g' pos where p: "p = (g', pos)" by (cases p) auto
      from attempts_Inr [OF att] Some p obtain r0 r2 where
        "trial grid allowed n tlen w r0 = Inr (Some (g', pos), r2)" by auto
      from Cons.prems(3) [OF _ _ _ this, of placed hist] Cons.prems(2) False
      have I': "I (g', placed @ [w], hist @ [(w, pos)])" by (simp add: st)
      from rest Some p
      have "place_words allowed n tlen ws (g', placed @ [w], hist @ [(w, pos)]) r1 = Inr (st', r')"
        by simp
      from Cons.IH [OF this I' step] show ?thesis .
    qed
  qed
qed

lemma nones_replicate: "nones (replicate a None) = a"
  by (simp add: nones_def)

lemma count_empties_make_empty: "count_empties (make_empty n) = int (nat n) * int (nat n)"
  by (simp add: count_empties_sum make_empty_def nones_replicate sum_list_replicate)

lemma square_make_empty: "square (nat n) (make_empty n)"
  by (simp add: square_def make_empty_def list_all_length)

lemma pick_allowed_subset: "set (pick_allowed diagonals backwards) \<subseteq> set DIRECTIONS"
  by (auto simp: pick_allowed_def Let_def)

lemma greedy_place_run:
  "greedy_place words n diagonals backwards tlen r = Inr ((grid, placed), r') \<longleftrightarrow>
     (\<exists>hist. greedy_run words n diagonals backwards tlen r = Inr ((grid, placed, hist), r'))"
  by (auto simp: greedy_place_def and_then_eq_Inr)

lemma greedy_run_loop:
  "greedy_run words n diagonals backwards tlen r =
     place_words (pick_allowed diagonals backwards) n tlen (fst (words_pool_of words r))
       (make_empty n, [], []) (snd (words_pool_of words r))"
  by (simp add: greedy_run_def Let_def split: prod.splits)

lemma shuffle_down_mset:
  "k < length xs \<or> k = 0 \<Longrightarrow> mset (fst (shuffle_down k xs r)) = mset xs"
proof (induction k arbitrary: xs r)
  case 0
  show ?case by simp
next
  case (Suc k)
  then have len: "Suc k < length xs" by simp
  let ?j = "r 0 mod Suc (Suc k)"
  have j: "?j < length xs"
    using len mod_less_divisor [of "Suc (Suc k)" "r 0"] by linarith
  let ?xs = "xs[Suc k := xs ! ?j, ?j := xs ! Suc k]"
  have "mset ?xs = mset xs" using j len by (rule mset_swap)
  moreover have "k < length ?xs \<or> k = 0" using len by simp
  from Suc.IH [OF this] have "mset (fst (shuffle_down k ?xs (\<lambda>k. r (Suc k)))) = mset ?xs" .
  ultimately show ?case by (simp add: randbelow_def)
qed

lemma words_pool_mset: "mset (fst (words_pool_of words r)) = mset words"
proof -
  have "length words - 1 < length words \<or> length words - 1 = 0" by auto
  then show ?thesis
    by (simp add: words_pool_of_def shuffle_def shuffle_down_mset)
qed

lemma words_pool_set: "set (fst (words_pool_of words r)) = set words"
  using words_pool_mset [of words r] by (metis set_mset_mset)

lemma place_words_skip:
  "n < int (length w) \<Longrightarrow>
     place_words allowed n tlen (w # ws) st r = place_words allowed n tlen ws st r"
  by (cases st) simp

lemma words_pool_single: "words_pool_of [w] r = ([w], r)"
  by (simp add: words_pool_of_def shuffle_def)

subsection \<open>A concrete run\<close>

text \<open>
  A run on a 3 by 3 grid with the words ELEPHANT and CAT, six reserved cells and a
  random source whose raw draws are all 0: the shuffle puts CAT first, the first
  trial picks direction E and the origin (0, 0), and CAT is written into the top row.
\<close>

lemma attempts_numeral:
  "attempts (numeral v) grid allowed n tlen w r =
     and_then (trial grid allowed n tlen w r) (\<lambda>(res, r').
       case res of
         None \<Rightarrow> attempts (pred_numeral v) grid allowed n tlen w r'
       | Some p \<Rightarrow> Inr (Some p, r'))"
  by (simp add: numeral_eq_Suc)

lemma run_pool:
  "words_pool_of [''ELEPHANT'', ''CAT''] (\<lambda>k. 0) = ([''CAT'', ''ELEPHANT''], \<lambda>k. 0)"
  by (simp add: words_pool_of_def shuffle_def randbelow_def)

lemma run_empty: "make_empty 3 = [[None, None, None], [None, None, None], [None, None, None]]"
  by (simp add: make_empty_def numeral_3_eq_3)

lemma run_trial:
  "trial [[None, None, None], [None, None, None], [None, None, None]]
     (pick_allowed True True) 3 6 ''CAT'' (\<lambda>k. 0)
   = Inr (Some ([[Some CHR ''C'', Some CHR ''A'', Some CHR ''T''],
                 [None, None, None], [None, None, None]], (0, 0, 1, 0)), \<lambda>k. 0)"
  by (simp add: trial_def choice_def randbelow_def randint_def min_origin_def max_origin_def
      pick_allowed_def DIRECTIONS_def can_place_def place_word_def count_empties_def
      getitem_def setitem_def norm_index_def upt_rec)

lemma run_attempts:
  "attempts 1000 [[None, None, None], [None, None, None], [None, None, None]]
     (pick_allowed True True) 3 6 ''CAT'' (\<lambda>k. 0)
   = Inr (Some ([[Some CHR ''C'', Some CHR ''A'', Some CHR ''T''],
                 [None, None, None], [None, None, None]], (0, 0, 1, 0)), \<lambda>k. 0)"
  by (simp add: attempts_numeral run_trial)

lemma run_greedy:
  "greedy_run [''ELEPHANT'', ''CAT''] 3 True True 6 (\<lambda>k. 0) =
     Inr (([[Some CHR ''C'', Some CHR ''A'', Some CHR ''T''], [None, None, None], [None, None, None]],
           [''CAT''], [(''CAT'', (0, 0, 1, 0))]), \<lambda>k. 0)"
  by (simp add: greedy_run_def run_empty run_pool run_attempts)

lemma run_greedy_place:
  "greedy_place [''ELEPHANT'', ''CAT''] 3 True True 6 (\<lambda>k. 0) =
     Inr (([[Some CHR ''C'', Some CHR ''A'', Some CHR ''T''], [None, None, None], [None, None, None]],
           [''CAT'']), \<lambda>k. 0)"
  by (simp add: greedy_place_def run_greedy)

section \<open>Words longer than the grid\<close>

text \<open>
  C7.  A word longer than \<open>n\<close> is skipped by the scheduler loop: the loop continues
  with the same grid, the same \<open>placed\<close> list and the same random source, so no
  placement is attempted and no error can arise from it; for a single such word
  \<open>greedy_place\<close> returns the untouched empty grid and an empty \<open>placed\<close> list.  In
  every run, each word of the returned \<open>placed\<close> list is a word of the input of
  length at most \<open>n\<close>.
\<close>

theorem long_words_skipped:
  "(n < int (length w) \<longrightarrow>
      place_words allowed n tlen (w # ws) st r = place_words allowed n tlen ws st r \<and>
      greedy_place [w] n diagonals backwards tlen r = Inr ((make_empty n, []), r)) \<and>
   (\<forall>grid placed r'.
      greedy_place words n diagonals backwards tlen r = Inr ((grid, placed), r') \<longrightarrow>
      (\<forall>v\<in>set placed. v \<in> set words \<and> int (length v) \<le> n))"
proof (intro conjI impI allI)
  assume "n < int (length w)"
  then show "place_words allowed n tlen (w # ws) st r = place_words allowed n tlen ws st r"
    by (rule place_words_skip)
next
  assume "n < int (length w)"
  then show "greedy_place [w] n diagonals backwards tlen r = Inr ((make_empty n, []), r)"
    by (simp add: greedy_place_def greedy_run_def words_pool_single)
next
  fix grid placed r'
  assume "greedy_place words n diagonals backwards tlen r = Inr ((grid, placed), r')"
  then obtain hist where
    "place_words (pick_allowed diagonals backwards) n tlen (fst (words_pool_of words r))
       (make_empty n, [], []) (snd (words_pool_of words r)) = Inr ((grid, placed, hist), r')"
    unfolding greedy_place_run greedy_run_loop by blast
  from place_words_invariant [OF this,
      where I = "\<lambda>(g, p, h). \<forall>v\<in>set p. v \<in> set words \<and> int (length v) \<le> n"]
  show "\<forall>v\<in>set placed. v \<in> set words \<and> int (length v) \<le> n"
    by (auto simp: words_pool_set)
qed

theorem long_words_skipped_witness:
  "greedy_place [''ELEPHANT''] 3 True True 6 (\<lambda>k. 0) = Inr ((make_empty 3, []), \<lambda>k. 0) \<and>
   greedy_place [''ELEPHANT'', ''CAT''] 3 True True 6 (\<lambda>k. 0) =
     Inr (([[Some CHR ''C'', Some CHR ''A'', Some CHR ''T''], [None, None, None], [None, None, None]],
           [''CAT'']), \<lambda>k. 0) \<and>
   ''CAT'' \<in> set [''ELEPHANT'', ''CAT''] \<and> int (length ''CAT'') \<le> 3"
proof -
  note t = long_words_skipped [where n = 3 and w = "''ELEPHANT''" and tlen = 6 and r = "\<lambda>k. 0"
      and diagonals = True and backwards = True and words = "[''ELEPHANT'', ''CAT'']"
      and allowed = "[]" and ws = "[]" and st = "([], [], [])"]
  have long: "(3::int) < int (length ''ELEPHANT'')" by simp
  from t long have a: "greedy_place [''ELEPHANT''] 3 True True 6 (\<lambda>k. 0) = Inr ((make_empty 3, []), \<lambda>k. 0)"
    by blast
  from t run_greedy_place have "\<forall>v\<in>set [''CAT'']. v \<in> set [''ELEPHANT'', ''CAT''] \<and> int (length v) \<le> 3"
    by blast
  with a run_greedy_place show ?thesis by simp
qed

end
